theory Spec2Isabelle
  imports Main "HOL-Library.Char_ord"
begin

section \<open>Toy robot simulator: the state and its transitions\<close>

text \<open>
  A shallow embedding of \<^verbatim>\<open>toy_robot.py\<close>. The robot state is the dictionary built by
  \<^verbatim>\<open>create_initial_state\<close>, with the keys \<^verbatim>\<open>x\<close>, \<^verbatim>\<open>y\<close>, \<^verbatim>\<open>facing\<close> and \<^verbatim>\<open>is_placed\<close>;
  the first three hold \<^verbatim>\<open>None\<close> until the robot is placed, so they are options here.
  The functions of the source mutate the dictionary in place; the model passes the state and
  returns the new one. An exception of the source is the \<open>Inl\<close> of a sum.

  Python integers are unbounded (\<open>int\<close>). A Python string is modelled as a \<open>string\<close>
  read as ASCII text: the string functions below agree with Python's on characters below 128,
  and leave every other character alone.
\<close>

datatype py_error = TypeError | ValueError | IndexError

record robot_state =
  x :: "int option"
  y :: "int option"
  facing :: "string option"
  is_placed :: bool

definition TABLE_WIDTH :: int where
  "TABLE_WIDTH = 5"

definition TABLE_HEIGHT :: int where
  "TABLE_HEIGHT = 5"

definition DIRECTIONS :: "string list" where
  "DIRECTIONS = [''NORTH'', ''EAST'', ''SOUTH'', ''WEST'']"

definition create_initial_state :: robot_state where
  "create_initial_state = \<lparr>x = None, y = None, facing = None, is_placed = False\<rparr>"

definition is_valid_position :: "int \<Rightarrow> int \<Rightarrow> bool" where
  "is_valid_position a b \<longleftrightarrow> 0 \<le> a \<and> a < TABLE_WIDTH \<and> 0 \<le> b \<and> b < TABLE_HEIGHT"

subsection \<open>The Python built-ins the transitions use\<close>

text \<open>\<^verbatim>\<open>str.upper\<close> on ASCII text: the letters a to z lose 32, nothing else changes.\<close>

definition upper_char :: "char \<Rightarrow> char" where
  "upper_char c =
     (if CHR ''a'' \<le> c \<and> c \<le> CHR ''z'' then char_of (of_char c - (32::nat)) else c)"

definition upper :: "string \<Rightarrow> string" where
  "upper s = map upper_char s"

text \<open>\<^verbatim>\<open>list.index(v)\<close>: the position of the first element equal to \<open>v\<close>, ValueError when
  there is none.\<close>

fun list_index :: "'a list \<Rightarrow> 'a \<Rightarrow> py_error + int" where
  "list_index [] v = Inl ValueError"
| "list_index (u # us) v =
     (if u = v then Inr 0
      else case list_index us v of Inl e \<Rightarrow> Inl e | Inr i \<Rightarrow> Inr (i + 1))"

text \<open>\<^verbatim>\<open>xs[i]\<close>: the index \<open>- 1\<close> is the last element, \<open>- 2\<close> the one before it, and so
  on down to \<open>- len(xs)\<close>; outside \<open>- len(xs) \<le> i < len(xs)\<close> the read raises IndexError.\<close>

definition list_get :: "'a list \<Rightarrow> int \<Rightarrow> py_error + 'a" where
  "list_get xs i =
     (if 0 \<le> i \<and> i < int (length xs) then Inr (xs ! nat i)
      else if i < 0 \<and> - int (length xs) \<le> i then Inr (xs ! nat (int (length xs) + i))
      else Inl IndexError)"

text \<open>\<^verbatim>\<open>str(n)\<close> for an integer, as an f-string formats it: the decimal digits, most
  significant first, after a minus sign when \<open>n\<close> is negative.\<close>

fun nat_digits :: "nat \<Rightarrow> string" where
  "nat_digits n =
     (if n < 10 then [char_of (48 + n)]
      else nat_digits (n div 10) @ [char_of (48 + n mod 10)])"

declare nat_digits.simps [simp del]

definition str_int :: "int \<Rightarrow> string" where
  "str_int n = (if n < 0 then CHR ''-'' # nat_digits (nat (- n)) else nat_digits (nat n))"

text \<open>What an f-string puts for a field of the state: \<^verbatim>\<open>None\<close> is formatted as the word
  None.\<close>

definition format_int :: "int option \<Rightarrow> string" where
  "format_int v = (case v of None \<Rightarrow> ''None'' | Some n \<Rightarrow> str_int n)"

definition format_str :: "string option \<Rightarrow> string" where
  "format_str v = (case v of None \<Rightarrow> ''None'' | Some t \<Rightarrow> t)"

subsection \<open>place, move, rotate_left, rotate_right, report\<close>

definition place :: "robot_state \<Rightarrow> int \<Rightarrow> int \<Rightarrow> string \<Rightarrow> robot_state" where
  "place s a b f =
     (let f' = upper f in
      if f' \<notin> set DIRECTIONS then s
      else if \<not> is_valid_position a b then s
      else s\<lparr>x := Some a, y := Some b, facing := Some f', is_placed := True\<rparr>)"

text \<open>In \<^verbatim>\<open>move\<close>, \<^verbatim>\<open>x + dx\<close> raises TypeError when \<^verbatim>\<open>x\<close> is None, and so does
  \<^verbatim>\<open>y + dy\<close>.\<close>

definition move :: "robot_state \<Rightarrow> py_error + robot_state" where
  "move s =
     (if \<not> is_placed s then Inr s
      else
        let f = facing s;
            (dx, dy) =
              (if f = Some ''NORTH'' then (0, 1)
               else if f = Some ''SOUTH'' then (0, - 1)
               else if f = Some ''EAST'' then (1, 0)
               else if f = Some ''WEST'' then (- 1, 0)
               else (0, 0))
        in case x s of
             None \<Rightarrow> Inl TypeError
           | Some xv \<Rightarrow>
               (case y s of
                  None \<Rightarrow> Inl TypeError
                | Some yv \<Rightarrow>
                    let new_x = xv + dx; new_y = yv + dy
                    in if is_valid_position new_x new_y
                       then Inr (s\<lparr>x := Some new_x, y := Some new_y\<rparr>)
                       else Inr s))"

text \<open>Python's \<^verbatim>\<open>%\<close> with a positive divisor is HOL's \<open>mod\<close> on \<open>int\<close>: the result is never
  negative.\<close>

definition rotate_left :: "robot_state \<Rightarrow> py_error + robot_state" where
  "rotate_left s =
     (if \<not> is_placed s then Inr s
      else case list_index (map Some DIRECTIONS) (facing s) of
             Inl e \<Rightarrow> Inl e
           | Inr idx \<Rightarrow>
               (case list_get DIRECTIONS ((idx - 1) mod int (length DIRECTIONS)) of
                  Inl e \<Rightarrow> Inl e
                | Inr d \<Rightarrow> Inr (s\<lparr>facing := Some d\<rparr>)))"

definition rotate_right :: "robot_state \<Rightarrow> py_error + robot_state" where
  "rotate_right s =
     (if \<not> is_placed s then Inr s
      else case list_index (map Some DIRECTIONS) (facing s) of
             Inl e \<Rightarrow> Inl e
           | Inr idx \<Rightarrow>
               (case list_get DIRECTIONS ((idx + 1) mod int (length DIRECTIONS)) of
                  Inl e \<Rightarrow> Inl e
                | Inr d \<Rightarrow> Inr (s\<lparr>facing := Some d\<rparr>)))"

text \<open>\<^verbatim>\<open>report\<close> only reads the state; the model returns the state it was given beside the
  string, so that what it does to the state can be stated.\<close>

definition report :: "robot_state \<Rightarrow> robot_state \<times> string option" where
  "report s =
     (if \<not> is_placed s then (s, None)
      else (s, Some (format_int (x s) @ '','' @ format_int (y s) @ '','' @ format_str (facing s))))"

section \<open>The line interpreter\<close>

subsection \<open>The Python built-ins the interpreter uses\<close>

text \<open>The ASCII characters for which \<^verbatim>\<open>str.isspace\<close> holds: tab, line feed, vertical tab,
  form feed, carriage return, the four separators 28 to 31, and the space. \<^verbatim>\<open>str.strip()\<close>
  and \<^verbatim>\<open>str.split()\<close> read whitespace so.\<close>

definition is_space :: "char \<Rightarrow> bool" where
  "is_space c \<longleftrightarrow> (let n = (of_char c :: nat) in (9 \<le> n \<and> n \<le> 13) \<or> (28 \<le> n \<and> n \<le> 32))"

definition strip :: "string \<Rightarrow> string" where
  "strip s = rev (dropWhile is_space (rev (dropWhile is_space s)))"

text \<open>\<^verbatim>\<open>str.split()\<close> with no argument: the maximal runs of characters that are not
  whitespace, in order; no run is empty.\<close>

function split_ws :: "string \<Rightarrow> string list" where
  "split_ws [] = []"
| "split_ws (c # cs) =
     (if is_space c then split_ws cs
      else takeWhile (\<lambda>d. \<not> is_space d) (c # cs)
             # split_ws (dropWhile (\<lambda>d. \<not> is_space d) (c # cs)))"
  by pat_completeness auto
termination
  by (relation "measure length") (auto simp: less_Suc_eq_le length_dropWhile_le)

text \<open>\<^verbatim>\<open>str.split(sep)\<close> for a separator of one character: the text between the
  separators, empty pieces included, so that a string with \<open>n\<close> separators gives \<open>n + 1\<close>
  pieces.\<close>

fun split_sep :: "char \<Rightarrow> string \<Rightarrow> string list" where
  "split_sep c [] = [] # []"
| "split_sep c (d # ds) =
     (if d = c then [] # split_sep c ds
      else case split_sep c ds of
             [] \<Rightarrow> [d] # []
           | w # ws \<Rightarrow> (d # w) # ws)"

text \<open>\<^verbatim>\<open>str.rstrip("\n")\<close>: the line without its trailing line feeds.\<close>

definition rstrip_newline :: "string \<Rightarrow> string" where
  "rstrip_newline s = rev (dropWhile (\<lambda>c. c = CHR 0x0A) (rev s))"

text \<open>
  \<^verbatim>\<open>int(s)\<close> for an ASCII string, base 10: whitespace around the number is dropped (for
  \<^verbatim>\<open>int\<close> that is the characters 9 to 13 and the space), one sign may lead, and the digits
  may hold single underscores between them. Anything else raises ValueError. The
  interpreter's limit on the number of digits of the string is not modelled.
\<close>

definition is_int_space :: "char \<Rightarrow> bool" where
  "is_int_space c \<longleftrightarrow> (let n = (of_char c :: nat) in (9 \<le> n \<and> n \<le> 13) \<or> n = 32)"

definition is_digit :: "char \<Rightarrow> bool" where
  "is_digit c \<longleftrightarrow> CHR ''0'' \<le> c \<and> c \<le> CHR ''9''"

definition digit_value :: "char \<Rightarrow> int" where
  "digit_value c = int (of_char c - (48::nat))"

fun digits_ok :: "string \<Rightarrow> bool" where
  "digits_ok [] = False"
| "digits_ok [c] = is_digit c"
| "digits_ok (c # d # r) =
     (is_digit c \<and> (if d = CHR ''_'' then digits_ok r else digits_ok (d # r)))"

definition digits_value :: "string \<Rightarrow> int" where
  "digits_value t = foldl (\<lambda>acc c. if c = CHR ''_'' then acc else 10 * acc + digit_value c) 0 t"

definition py_int :: "string \<Rightarrow> py_error + int" where
  "py_int t =
     (let u = rev (dropWhile is_int_space (rev (dropWhile is_int_space t)));
          (neg, body) =
            (case u of
               [] \<Rightarrow> (False, u)
             | c # r \<Rightarrow>
                 if c = CHR ''-'' then (True, r)
                 else if c = CHR ''+'' then (False, r)
                 else (False, u))
      in if digits_ok body
         then Inr (if neg then - digits_value body else digits_value body)
         else Inl ValueError)"

subsection \<open>process_line\<close>

text \<open>
  The body of the \<^verbatim>\<open>try\<close> block of \<^verbatim>\<open>process_line\<close>: the second token is split at its
  commas, unpacking the pieces into three names raises ValueError unless there are exactly
  three, and the first two go through \<^verbatim>\<open>int\<close>.
\<close>

definition place_args :: "string list \<Rightarrow> py_error + int \<times> int \<times> string" where
  "place_args parts =
     (case list_get parts 1 of
        Inl e \<Rightarrow> Inl e
      | Inr args_part \<Rightarrow>
          (case split_sep CHR '','' args_part of
             [x_str, y_str, f] \<Rightarrow>
               (case py_int x_str of
                  Inl e \<Rightarrow> Inl e
                | Inr a \<Rightarrow>
                    (case py_int y_str of
                       Inl e \<Rightarrow> Inl e
                     | Inr b \<Rightarrow> Inr (a, b, f)))
           | _ \<Rightarrow> Inl ValueError))"

text \<open>
  \<^verbatim>\<open>process_line\<close> returns the state after the line beside the value the source returns
  (the REPORT string, or None). The \<^verbatim>\<open>except ValueError\<close> clause catches that error only;
  any other error of the \<^verbatim>\<open>try\<close> block, and every error of the transitions, leaves
  \<^verbatim>\<open>process_line\<close> as it is.
\<close>

definition process_line :: "robot_state \<Rightarrow> string \<Rightarrow> py_error + robot_state \<times> string option" where
  "process_line s l =
     (let line = strip l in
      if line = [] then Inr (s, None)
      else
        let parts = split_ws line in
        case list_get parts 0 of
          Inl e \<Rightarrow> Inl e
        | Inr p0 \<Rightarrow>
            let cmd = upper p0 in
            if cmd = ''PLACE'' then
              (if length parts < 2 then Inr (s, None)
               else case place_args parts of
                      Inl e \<Rightarrow> (if e = ValueError then Inr (s, None) else Inl e)
                    | Inr (a, b, f) \<Rightarrow> Inr (place s a b f, None))
            else if \<not> is_placed s then Inr (s, None)
            else if cmd = ''MOVE'' then
              (case move s of Inl e \<Rightarrow> Inl e | Inr s' \<Rightarrow> Inr (s', None))
            else if cmd = ''LEFT'' then
              (case rotate_left s of Inl e \<Rightarrow> Inl e | Inr s' \<Rightarrow> Inr (s', None))
            else if cmd = ''RIGHT'' then
              (case rotate_right s of Inl e \<Rightarrow> Inl e | Inr s' \<Rightarrow> Inr (s', None))
            else if cmd = ''REPORT'' then Inr (report s)
            else Inr (s, None))"

subsection \<open>run_stream\<close>

text \<open>
  The loop of \<^verbatim>\<open>run_stream\<close> without the visualisation: each raw line loses its trailing
  line feeds and goes through \<^verbatim>\<open>process_line\<close>. \<open>run_loop\<close> is the loop from a given
  state; it keeps the value \<^verbatim>\<open>process_line\<close> returned for every line. \<^verbatim>\<open>run_stream\<close>
  starts from the initial state and prints the values that are not None.
\<close>

fun run_loop :: "robot_state \<Rightarrow> string list \<Rightarrow> py_error + robot_state \<times> string option list" where
  "run_loop s [] = Inr (s, [])"
| "run_loop s (raw_line # stream) =
     (case process_line s (rstrip_newline raw_line) of
        Inl e \<Rightarrow> Inl e
      | Inr (s', result) \<Rightarrow>
          (case run_loop s' stream of
             Inl e \<Rightarrow> Inl e
           | Inr (s'', results) \<Rightarrow> Inr (s'', result # results)))"

definition run_stream :: "string list \<Rightarrow> py_error + string list" where
  "run_stream stream =
     (case run_loop create_initial_state stream of
        Inl e \<Rightarrow> Inl e
      | Inr (s, results) \<Rightarrow> Inr (concat (map (\<lambda>r. case r of None \<Rightarrow> [] | Some t \<Rightarrow> [t]) results)))"

section \<open>What the properties are stated with\<close>

text \<open>
  The data model's invariant: once the robot is placed, \<^verbatim>\<open>x\<close> and \<^verbatim>\<open>y\<close> hold a position
  on the table and \<^verbatim>\<open>facing\<close> holds one of the four names of \<^verbatim>\<open>DIRECTIONS\<close>.
\<close>

definition state_inv :: "robot_state \<Rightarrow> bool" where
  "state_inv s \<longleftrightarrow>
     (is_placed s \<longrightarrow>
        (case x s of
           None \<Rightarrow> False
         | Some a \<Rightarrow> (case y s of None \<Rightarrow> False | Some b \<Rightarrow> is_valid_position a b))
        \<and> facing s \<in> set (map Some DIRECTIONS))"

text \<open>
  The operations a caller has: the five transitions with their arguments, and a line given to
  \<^verbatim>\<open>process_line\<close>. \<open>apply_ops\<close> runs a sequence of them from a state and stops at the
  first error, as the exception would.
\<close>

datatype operation =
  Place int int string | Move | RotateLeft | RotateRight | Report | ProcessLine string

fun apply_op :: "robot_state \<Rightarrow> operation \<Rightarrow> py_error + robot_state" where
  "apply_op s (Place a b f) = Inr (place s a b f)"
| "apply_op s Move = move s"
| "apply_op s RotateLeft = rotate_left s"
| "apply_op s RotateRight = rotate_right s"
| "apply_op s Report = Inr (fst (report s))"
| "apply_op s (ProcessLine l) =
     (case process_line s l of Inl e \<Rightarrow> Inl e | Inr (s', result) \<Rightarrow> Inr s')"

fun apply_ops :: "robot_state \<Rightarrow> operation list \<Rightarrow> py_error + robot_state" where
  "apply_ops s [] = Inr s"
| "apply_ops s (c # cs) =
     (case apply_op s c of Inl e \<Rightarrow> Inl e | Inr s' \<Rightarrow> apply_ops s' cs)"

text \<open>The cyclic order of the facings under a left turn.\<close>

definition left_order :: "string list" where
  "left_order = [''NORTH'', ''WEST'', ''SOUTH'', ''EAST'']"

text \<open>A line that places the robot: processed in the initial state, it leaves the robot
  placed.\<close>

definition placing_line :: "string \<Rightarrow> bool" where
  "placing_line l \<longleftrightarrow>
     (case process_line create_initial_state l of
        Inl e \<Rightarrow> False
      | Inr (s', result) \<Rightarrow> is_placed s')"

section \<open>The rotations\<close>

lemma list_index_DIRECTIONS:
  "list_index (map Some DIRECTIONS) (Some ''NORTH'') = Inr 0"
  "list_index (map Some DIRECTIONS) (Some ''EAST'') = Inr 1"
  "list_index (map Some DIRECTIONS) (Some ''SOUTH'') = Inr 2"
  "list_index (map Some DIRECTIONS) (Some ''WEST'') = Inr 3"
  by (simp_all add: DIRECTIONS_def)

lemma rotate_left_facing:
  assumes "is_placed s"
  shows "facing s = Some ''NORTH'' \<Longrightarrow> rotate_left s = Inr (s\<lparr>facing := Some ''WEST''\<rparr>)"
    and "facing s = Some ''WEST'' \<Longrightarrow> rotate_left s = Inr (s\<lparr>facing := Some ''SOUTH''\<rparr>)"
    and "facing s = Some ''SOUTH'' \<Longrightarrow> rotate_left s = Inr (s\<lparr>facing := Some ''EAST''\<rparr>)"
    and "facing s = Some ''EAST'' \<Longrightarrow> rotate_left s = Inr (s\<lparr>facing := Some ''NORTH''\<rparr>)"
  using assms
  by (simp_all add: rotate_left_def list_index_DIRECTIONS list_get_def)
     (simp_all add: DIRECTIONS_def)

lemma rotate_right_facing:
  assumes "is_placed s"
  shows "facing s = Some ''NORTH'' \<Longrightarrow> rotate_right s = Inr (s\<lparr>facing := Some ''EAST''\<rparr>)"
    and "facing s = Some ''EAST'' \<Longrightarrow> rotate_right s = Inr (s\<lparr>facing := Some ''SOUTH''\<rparr>)"
    and "facing s = Some ''SOUTH'' \<Longrightarrow> rotate_right s = Inr (s\<lparr>facing := Some ''WEST''\<rparr>)"
    and "facing s = Some ''WEST'' \<Longrightarrow> rotate_right s = Inr (s\<lparr>facing := Some ''NORTH''\<rparr>)"
  using assms
  by (simp_all add: rotate_right_def list_index_DIRECTIONS list_get_def)
     (simp_all add: DIRECTIONS_def)

lemma facing_cases:
  assumes "v \<in> set (map Some DIRECTIONS)"
  obtains "v = Some ''NORTH''" | "v = Some ''EAST''" | "v = Some ''SOUTH''" | "v = Some ''WEST''"
  using assms by (auto simp: DIRECTIONS_def)

text \<open>
  C7. In a placed state, whose facing is one of the four names, a left turn followed by a
  right turn returns without error and gives back the state it started from, facing
  included; so does a right turn followed by a left turn.
\<close>

theorem rotate_round_trip:
  assumes "is_placed s" and "facing s \<in> set (map Some DIRECTIONS)"
  shows "(\<exists>s1. rotate_left s = Inr s1 \<and> rotate_right s1 = Inr s) \<and>
         (\<exists>s2. rotate_right s = Inr s2 \<and> rotate_left s2 = Inr s)"
  using assms(2)
proof (cases rule: facing_cases)
  case 1
  with assms(1) show ?thesis by (simp add: rotate_left_facing rotate_right_facing)
next
  case 2
  with assms(1) show ?thesis by (simp add: rotate_left_facing rotate_right_facing)
next
  case 3
  with assms(1) show ?thesis by (simp add: rotate_left_facing rotate_right_facing)
next
  case 4
  with assms(1) show ?thesis by (simp add: rotate_left_facing rotate_right_facing)
qed

theorem rotate_round_trip_witness:
  "is_placed \<lparr>x = Some 1, y = Some 2, facing = Some ''EAST'', is_placed = True\<rparr> \<and>
   facing \<lparr>x = Some 1, y = Some 2, facing = Some ''EAST'', is_placed = True\<rparr>
     \<in> set (map Some DIRECTIONS) \<and>
   (\<exists>s1. rotate_left \<lparr>x = Some 1, y = Some 2, facing = Some ''EAST'', is_placed = True\<rparr> = Inr s1 \<and>
      rotate_right s1 = Inr \<lparr>x = Some 1, y = Some 2, facing = Some ''EAST'', is_placed = True\<rparr>) \<and>
   (\<exists>s2. rotate_right \<lparr>x = Some 1, y = Some 2, facing = Some ''EAST'', is_placed = True\<rparr> = Inr s2 \<and>
      rotate_left s2 = Inr \<lparr>x = Some 1, y = Some 2, facing = Some ''EAST'', is_placed = True\<rparr>)"
proof -
  let ?c = "\<lparr>x = Some 1, y = Some 2, facing = Some ''EAST'', is_placed = True\<rparr>"
  have h1: "is_placed ?c" by simp
  have h2: "facing ?c \<in> set (map Some DIRECTIONS)" by (simp add: DIRECTIONS_def)
  from rotate_round_trip [OF h1 h2] h1 h2 show ?thesis by blast
qed

text \<open>
  C8. In a placed state whose facing is the \<open>i\<close>-th name of the cyclic order NORTH, WEST,
  SOUTH, EAST, a left turn gives the next name of the order (after EAST comes NORTH) and a
  right turn the one before it, changing nothing else; four left turns in a row, and four
  right turns in a row, return without error and give back the starting state.
\<close>

theorem rotate_cyclic_order:
  assumes "is_placed s" and "i < 4" and "facing s = Some (left_order ! i)"
  shows "rotate_left s = Inr (s\<lparr>facing := Some (left_order ! ((i + 1) mod 4))\<rparr>) \<and>
         rotate_right s = Inr (s\<lparr>facing := Some (left_order ! ((i + 3) mod 4))\<rparr>) \<and>
         (\<exists>s1 s2 s3. rotate_left s = Inr s1 \<and> rotate_left s1 = Inr s2 \<and>
            rotate_left s2 = Inr s3 \<and> rotate_left s3 = Inr s) \<and>
         (\<exists>s1 s2 s3. rotate_right s = Inr s1 \<and> rotate_right s1 = Inr s2 \<and>
            rotate_right s2 = Inr s3 \<and> rotate_right s3 = Inr s)"
proof -
  from assms(2) consider "i = 0" | "i = 1" | "i = 2" | "i = 3" by linarith
  then show ?thesis
  proof cases
    case 1
    with assms(1,3) show ?thesis
      by (simp add: left_order_def rotate_left_facing rotate_right_facing)
  next
    case 2
    with assms(1,3) show ?thesis
      by (simp add: left_order_def rotate_left_facing rotate_right_facing)
  next
    case 3
    with assms(1,3) show ?thesis
      by (simp add: left_order_def rotate_left_facing rotate_right_facing)
  next
    case 4
    with assms(1,3) show ?thesis
      by (simp add: left_order_def rotate_left_facing rotate_right_facing)
  qed
qed

theorem rotate_cyclic_order_witness:
  "is_placed \<lparr>x = Some 0, y = Some 0, facing = Some ''NORTH'', is_placed = True\<rparr> \<and>
   (0::nat) < 4 \<and> left_order ! 0 = ''NORTH'' \<and> left_order ! 1 = ''WEST'' \<and> left_order ! 3 = ''EAST'' \<and>
   rotate_left \<lparr>x = Some 0, y = Some 0, facing = Some ''NORTH'', is_placed = True\<rparr> =
     Inr \<lparr>x = Some 0, y = Some 0, facing = Some ''WEST'', is_placed = True\<rparr> \<and>
   rotate_right \<lparr>x = Some 0, y = Some 0, facing = Some ''NORTH'', is_placed = True\<rparr> =
     Inr \<lparr>x = Some 0, y = Some 0, facing = Some ''EAST'', is_placed = True\<rparr>"
proof -
  let ?c = "\<lparr>x = Some 0, y = Some 0, facing = Some ''NORTH'', is_placed = True\<rparr>"
  have h1: "is_placed ?c" by simp
  have h2: "(0::nat) < 4" by simp
  have h3: "facing ?c = Some (left_order ! 0)" by (simp add: left_order_def)
  from rotate_cyclic_order [OF h1 h2 h3] show ?thesis by (simp add: left_order_def)
qed

section \<open>What the rotations and report leave alone\<close>

lemma rotate_left_frame:
  "rotate_left s = Inr s' \<Longrightarrow> x s' = x s \<and> y s' = y s \<and> is_placed s' = is_placed s"
  by (auto simp: rotate_left_def split: if_splits sum.splits)

lemma rotate_right_frame:
  "rotate_right s = Inr s' \<Longrightarrow> x s' = x s \<and> y s' = y s \<and> is_placed s' = is_placed s"
  by (auto simp: rotate_right_def split: if_splits sum.splits)

lemma rotate_total:
  assumes "state_inv s"
  shows "\<exists>d. rotate_left s = Inr (s\<lparr>facing := d\<rparr>)" and "\<exists>d. rotate_right s = Inr (s\<lparr>facing := d\<rparr>)"
proof -
  show "\<exists>d. rotate_left s = Inr (s\<lparr>facing := d\<rparr>)"
  proof (cases "is_placed s")
    case False
    then have "rotate_left s = Inr (s\<lparr>facing := facing s\<rparr>)" by (simp add: rotate_left_def)
    then show ?thesis ..
  next
    case True
    with assms have "facing s \<in> set (map Some DIRECTIONS)" by (simp add: state_inv_def)
    then show ?thesis
      by (cases rule: facing_cases) (use True in \<open>auto simp: rotate_left_facing\<close>)
  qed
  show "\<exists>d. rotate_right s = Inr (s\<lparr>facing := d\<rparr>)"
  proof (cases "is_placed s")
    case False
    then have "rotate_right s = Inr (s\<lparr>facing := facing s\<rparr>)" by (simp add: rotate_right_def)
    then show ?thesis ..
  next
    case True
    with assms have "facing s \<in> set (map Some DIRECTIONS)" by (simp add: state_inv_def)
    then show ?thesis
      by (cases rule: facing_cases) (use True in \<open>auto simp: rotate_right_facing\<close>)
  qed
qed

text \<open>
  C10. In every state, a rotation that returns has changed nothing but \<^verbatim>\<open>facing\<close>:
  \<^verbatim>\<open>x\<close>, \<^verbatim>\<open>y\<close> and \<^verbatim>\<open>is_placed\<close> are as before; in a state that satisfies the
  data model's invariant both rotations do return; and \<^verbatim>\<open>report\<close> hands back the state
  it was given.
\<close>

theorem rotate_report_frame:
  "(\<forall>s'. rotate_left s = Inr s' \<longrightarrow> x s' = x s \<and> y s' = y s \<and> is_placed s' = is_placed s) \<and>
   (\<forall>s'. rotate_right s = Inr s' \<longrightarrow> x s' = x s \<and> y s' = y s \<and> is_placed s' = is_placed s) \<and>
   (state_inv s \<longrightarrow> (\<exists>s'. rotate_left s = Inr s') \<and> (\<exists>s'. rotate_right s = Inr s')) \<and>
   fst (report s) = s"
proof -
  have "state_inv s \<Longrightarrow> (\<exists>s'. rotate_left s = Inr s') \<and> (\<exists>s'. rotate_right s = Inr s')"
    using rotate_total [of s] by blast
  moreover have "fst (report s) = s" by (simp add: report_def)
  ultimately show ?thesis using rotate_left_frame [of s] rotate_right_frame [of s] by blast
qed

theorem rotate_report_frame_witness:
  "state_inv \<lparr>x = Some 3, y = Some 4, facing = Some ''SOUTH'', is_placed = True\<rparr> \<and>
   rotate_left \<lparr>x = Some 3, y = Some 4, facing = Some ''SOUTH'', is_placed = True\<rparr> =
     Inr \<lparr>x = Some 3, y = Some 4, facing = Some ''EAST'', is_placed = True\<rparr> \<and>
   rotate_right \<lparr>x = Some 3, y = Some 4, facing = Some ''SOUTH'', is_placed = True\<rparr> =
     Inr \<lparr>x = Some 3, y = Some 4, facing = Some ''WEST'', is_placed = True\<rparr> \<and>
   x \<lparr>x = Some 3, y = Some 4, facing = Some ''EAST'', is_placed = True\<rparr> = Some 3 \<and>
   y \<lparr>x = Some 3, y = Some 4, facing = Some ''WEST'', is_placed = True\<rparr> = Some 4 \<and>
   fst (report \<lparr>x = Some 3, y = Some 4, facing = Some ''SOUTH'', is_placed = True\<rparr>) =
     \<lparr>x = Some 3, y = Some 4, facing = Some ''SOUTH'', is_placed = True\<rparr>"
proof -
  let ?c = "\<lparr>x = Some 3, y = Some 4, facing = Some ''SOUTH'', is_placed = True\<rparr>"
  have inv: "state_inv ?c"
    by (simp add: state_inv_def is_valid_position_def TABLE_WIDTH_def TABLE_HEIGHT_def
        DIRECTIONS_def)
  have l: "rotate_left ?c = Inr \<lparr>x = Some 3, y = Some 4, facing = Some ''EAST'', is_placed = True\<rparr>"
    by (simp add: rotate_left_facing)
  have r: "rotate_right ?c = Inr \<lparr>x = Some 3, y = Some 4, facing = Some ''WEST'', is_placed = True\<rparr>"
    by (simp add: rotate_right_facing)
  from rotate_report_frame [of ?c] inv l r show ?thesis by simp
qed

section \<open>move\<close>

lemma state_invD:
  assumes "state_inv s" and "is_placed s"
  obtains a b where "x s = Some a" and "y s = Some b" and "is_valid_position a b"
    and "facing s \<in> set (map Some DIRECTIONS)"
  using assms by (auto simp: state_inv_def split: option.splits)

lemma move_unplaced: "\<not> is_placed s \<Longrightarrow> move s = Inr s"
  by (simp add: move_def)

lemma move_facing:
  assumes "is_placed s" and "x s = Some a" and "y s = Some b"
  shows "facing s = Some ''NORTH'' \<Longrightarrow>
           move s = Inr (if is_valid_position a (b + 1) then s\<lparr>y := Some (b + 1)\<rparr> else s)"
    and "facing s = Some ''SOUTH'' \<Longrightarrow>
           move s = Inr (if is_valid_position a (b - 1) then s\<lparr>y := Some (b - 1)\<rparr> else s)"
    and "facing s = Some ''EAST'' \<Longrightarrow>
           move s = Inr (if is_valid_position (a + 1) b then s\<lparr>x := Some (a + 1)\<rparr> else s)"
    and "facing s = Some ''WEST'' \<Longrightarrow>
           move s = Inr (if is_valid_position (a - 1) b then s\<lparr>x := Some (a - 1)\<rparr> else s)"
  using assms by (simp_all add: move_def)

lemma move_inv:
  assumes "state_inv s"
  shows "\<exists>s'. move s = Inr s' \<and> state_inv s' \<and> is_placed s' = is_placed s \<and> facing s' = facing s"
proof (cases "is_placed s")
  case False
  with assms show ?thesis by (simp add: move_unplaced)
next
  case True
  from assms True obtain a b where ab: "x s = Some a" "y s = Some b" "is_valid_position a b"
    and f: "facing s \<in> set (map Some DIRECTIONS)"
    by (rule state_invD)
  from f show ?thesis
    by (cases rule: facing_cases)
       (use True ab f in \<open>auto simp: move_facing state_inv_def\<close>)
qed

text \<open>
  C2. In an unplaced state \<^verbatim>\<open>move\<close> returns the state as it is. In a placed state that
  satisfies the data model's invariant, with the robot at \<open>(a, b)\<close>: facing NORTH the target
  is \<open>(a, b + 1)\<close>, facing SOUTH \<open>(a, b - 1)\<close>, facing EAST \<open>(a + 1, b)\<close>, facing WEST
  \<open>(a - 1, b)\<close>; \<^verbatim>\<open>move\<close> returns the state with the position set to the target and
  nothing else changed when the target is on the table, and the whole state unchanged when it
  is not. The facing is one of these four, and the state \<^verbatim>\<open>move\<close> returns is placed, has
  the same facing and a position within \<open>0 \<le> x < 5\<close>, \<open>0 \<le> y < 5\<close>.
\<close>

theorem move_unit_step:
  "(\<not> is_placed s \<longrightarrow> move s = Inr s) \<and>
   (is_placed s \<and> state_inv s \<longrightarrow>
      (\<exists>a b. x s = Some a \<and> y s = Some b \<and>
         (facing s = Some ''NORTH'' \<longrightarrow>
            move s = Inr (if is_valid_position a (b + 1) then s\<lparr>y := Some (b + 1)\<rparr> else s)) \<and>
         (facing s = Some ''SOUTH'' \<longrightarrow>
            move s = Inr (if is_valid_position a (b - 1) then s\<lparr>y := Some (b - 1)\<rparr> else s)) \<and>
         (facing s = Some ''EAST'' \<longrightarrow>
            move s = Inr (if is_valid_position (a + 1) b then s\<lparr>x := Some (a + 1)\<rparr> else s)) \<and>
         (facing s = Some ''WEST'' \<longrightarrow>
            move s = Inr (if is_valid_position (a - 1) b then s\<lparr>x := Some (a - 1)\<rparr> else s))) \<and>
      facing s \<in> {Some ''NORTH'', Some ''SOUTH'', Some ''EAST'', Some ''WEST''} \<and>
      (\<exists>s' a' b'. move s = Inr s' \<and> is_placed s' \<and> facing s' = facing s \<and>
         x s' = Some a' \<and> y s' = Some b' \<and> 0 \<le> a' \<and> a' < 5 \<and> 0 \<le> b' \<and> b' < 5))"
proof (intro conjI impI)
  assume "\<not> is_placed s"
  then show "move s = Inr s" by (rule move_unplaced)
next
  assume A: "is_placed s \<and> state_inv s"
  then obtain a b where ab: "x s = Some a" "y s = Some b"
    by (auto elim: state_invD)
  with A show "\<exists>a b. x s = Some a \<and> y s = Some b \<and>
         (facing s = Some ''NORTH'' \<longrightarrow>
            move s = Inr (if is_valid_position a (b + 1) then s\<lparr>y := Some (b + 1)\<rparr> else s)) \<and>
         (facing s = Some ''SOUTH'' \<longrightarrow>
            move s = Inr (if is_valid_position a (b - 1) then s\<lparr>y := Some (b - 1)\<rparr> else s)) \<and>
         (facing s = Some ''EAST'' \<longrightarrow>
            move s = Inr (if is_valid_position (a + 1) b then s\<lparr>x := Some (a + 1)\<rparr> else s)) \<and>
         (facing s = Some ''WEST'' \<longrightarrow>
            move s = Inr (if is_valid_position (a - 1) b then s\<lparr>x := Some (a - 1)\<rparr> else s))"
    using move_facing [of s a b] by blast
next
  assume A: "is_placed s \<and> state_inv s"
  then show "facing s \<in> {Some ''NORTH'', Some ''SOUTH'', Some ''EAST'', Some ''WEST''}"
    by (auto simp: state_inv_def DIRECTIONS_def)
next
  assume A: "is_placed s \<and> state_inv s"
  then obtain s' where s': "move s = Inr s'" "state_inv s'" "is_placed s'" "facing s' = facing s"
    using move_inv [of s] by auto
  from s'(2,3) obtain a' b' where "x s' = Some a'" "y s' = Some b'" "is_valid_position a' b'"
    by (auto elim: state_invD)
  with s' show "\<exists>s' a' b'. move s = Inr s' \<and> is_placed s' \<and> facing s' = facing s \<and>
         x s' = Some a' \<and> y s' = Some b' \<and> 0 \<le> a' \<and> a' < 5 \<and> 0 \<le> b' \<and> b' < 5"
    by (auto simp: is_valid_position_def TABLE_WIDTH_def TABLE_HEIGHT_def)
qed

theorem move_unit_step_witness:
  "state_inv \<lparr>x = Some 1, y = Some 2, facing = Some ''EAST'', is_placed = True\<rparr> \<and>
   move \<lparr>x = Some 1, y = Some 2, facing = Some ''EAST'', is_placed = True\<rparr> =
     Inr \<lparr>x = Some 2, y = Some 2, facing = Some ''EAST'', is_placed = True\<rparr> \<and>
   state_inv \<lparr>x = Some 0, y = Some 4, facing = Some ''NORTH'', is_placed = True\<rparr> \<and>
   move \<lparr>x = Some 0, y = Some 4, facing = Some ''NORTH'', is_placed = True\<rparr> =
     Inr \<lparr>x = Some 0, y = Some 4, facing = Some ''NORTH'', is_placed = True\<rparr> \<and>
   move create_initial_state = Inr create_initial_state"
proof -
  let ?c = "\<lparr>x = Some 1, y = Some 2, facing = Some ''EAST'', is_placed = True\<rparr>"
  let ?d = "\<lparr>x = Some 0, y = Some 4, facing = Some ''NORTH'', is_placed = True\<rparr>"
  have c: "state_inv ?c"
    by (simp add: state_inv_def is_valid_position_def TABLE_WIDTH_def TABLE_HEIGHT_def
        DIRECTIONS_def)
  have d: "state_inv ?d"
    by (simp add: state_inv_def is_valid_position_def TABLE_WIDTH_def TABLE_HEIGHT_def
        DIRECTIONS_def)
  have u: "\<not> is_placed create_initial_state" by (simp add: create_initial_state_def)
  from move_unit_step [of ?c] c
  have mc: "move ?c = Inr \<lparr>x = Some 2, y = Some 2, facing = Some ''EAST'', is_placed = True\<rparr>"
    by (simp add: is_valid_position_def TABLE_WIDTH_def TABLE_HEIGHT_def)
  from move_unit_step [of ?d] d
  have md: "move ?d = Inr ?d"
    by (simp add: is_valid_position_def TABLE_WIDTH_def TABLE_HEIGHT_def)
  from move_unit_step [of create_initial_state] u
  have mu: "move create_initial_state = Inr create_initial_state" by simp
  from c d mc md mu show ?thesis by simp
qed

section \<open>place and report\<close>

lemma str_int_digit:
  assumes "0 \<le> a" and "a < 5"
  shows "str_int a = [''01234'' ! nat a]"
proof -
  from assms consider "a = 0" | "a = 1" | "a = 2" | "a = 3" | "a = 4" by linarith
  then show ?thesis
  proof cases
    case 1 show ?thesis unfolding 1 by code_simp
  next
    case 2 show ?thesis unfolding 2 by code_simp
  next
    case 3 show ?thesis unfolding 3 by code_simp
  next
    case 4 show ?thesis unfolding 4 by code_simp
  next
    case 5 show ?thesis unfolding 5 by code_simp
  qed
qed

lemma place_valid:
  assumes "is_valid_position a b" and "upper f \<in> set DIRECTIONS"
  shows "place s a b f = s\<lparr>x := Some a, y := Some b, facing := Some (upper f), is_placed := True\<rparr>"
  using assms by (simp add: place_def)

lemma place_rejected:
  "\<not> is_valid_position a b \<or> upper f \<notin> set DIRECTIONS \<Longrightarrow> place s a b f = s"
  by (auto simp: place_def Let_def)

text \<open>
  C3. For \<open>0 \<le> a < 5\<close>, \<open>0 \<le> b < 5\<close> and a facing name \<open>f\<close> that is one of the four
  names once put in upper case, \<^verbatim>\<open>place\<close> from any state gives a placed state holding
  \<open>a\<close>, \<open>b\<close> and the name in upper case, and \<^verbatim>\<open>report\<close> on it returns the digit of
  \<open>a\<close>, a comma, the digit of \<open>b\<close>, a comma and the name in upper case, leaving the state
  as it is. In every unplaced state \<^verbatim>\<open>report\<close> returns None.
\<close>

theorem place_then_report:
  assumes "0 \<le> a" and "a < 5" and "0 \<le> b" and "b < 5" and "upper f \<in> set DIRECTIONS"
  shows "is_placed (place s a b f) \<and>
         x (place s a b f) = Some a \<and> y (place s a b f) = Some b \<and>
         facing (place s a b f) = Some (upper f) \<and>
         report (place s a b f) =
           (place s a b f,
            Some ([''01234'' ! nat a] @ '','' @ [''01234'' ! nat b] @ '','' @ upper f)) \<and>
         (\<forall>t. \<not> is_placed t \<longrightarrow> snd (report t) = None)"
proof -
  from assms have v: "is_valid_position a b"
    by (simp add: is_valid_position_def TABLE_WIDTH_def TABLE_HEIGHT_def)
  note p = place_valid [OF v assms(5), of s]
  have "report (place s a b f) =
          (place s a b f, Some (str_int a @ '','' @ str_int b @ '','' @ upper f))"
    by (simp add: p report_def format_int_def format_str_def)
  moreover have "\<forall>t. \<not> is_placed t \<longrightarrow> snd (report t) = None"
    by (simp add: report_def)
  ultimately show ?thesis
    using assms(1-4) by (simp add: p str_int_digit)
qed

theorem place_then_report_witness:
  "(0::int) \<le> 3 \<and> (3::int) < 5 \<and> (0::int) \<le> 4 \<and> (4::int) < 5 \<and>
   upper ''nOrTh'' \<in> set DIRECTIONS \<and>
   report (place create_initial_state 3 4 ''nOrTh'') =
     (\<lparr>x = Some 3, y = Some 4, facing = Some ''NORTH'', is_placed = True\<rparr>, Some ''3,4,NORTH'') \<and>
   snd (report create_initial_state) = None"
proof -
  have u: "upper ''nOrTh'' = ''NORTH''" by code_simp
  have h: "upper ''nOrTh'' \<in> set DIRECTIONS" by (simp add: u DIRECTIONS_def)
  have i: "\<not> is_placed create_initial_state" by (simp add: create_initial_state_def)
  have p: "place create_initial_state 3 4 ''nOrTh'' =
             \<lparr>x = Some 3, y = Some 4, facing = Some ''NORTH'', is_placed = True\<rparr>"
    by (simp add: place_def u DIRECTIONS_def is_valid_position_def TABLE_WIDTH_def
        TABLE_HEIGHT_def create_initial_state_def)
  from place_then_report [of 3 4 "''nOrTh''" create_initial_state, OF _ _ _ _ h] i
  show ?thesis by (simp add: p u DIRECTIONS_def)
qed

section \<open>process_line\<close>

lemma py_int_error: "py_int t = Inl e \<Longrightarrow> e = ValueError"
  by (auto simp: py_int_def Let_def split: if_splits prod.splits)

lemma place_args_two:
  "place_args (p0 # arg # others) =
     (case split_sep CHR '','' arg of
        [x_str, y_str, f] \<Rightarrow>
          (case py_int x_str of
             Inl e \<Rightarrow> Inl e
           | Inr a \<Rightarrow> (case py_int y_str of Inl e \<Rightarrow> Inl e | Inr b \<Rightarrow> Inr (a, b, f)))
      | _ \<Rightarrow> Inl ValueError)"
  by (simp add: place_args_def list_get_def)

lemma place_args_error: "place_args (p0 # arg # others) = Inl e \<Longrightarrow> e = ValueError"
  by (auto simp: place_args_two split: list.splits sum.splits dest: py_int_error)

lemma strip_nonempty:
  assumes "strip l \<noteq> []"
  shows "\<exists>c \<in> set (strip l). \<not> is_space c"
proof -
  let ?r = "rev (dropWhile is_space l)"
  from assms have ne: "dropWhile is_space ?r \<noteq> []" by (simp add: strip_def)
  then have "\<not> is_space (hd (dropWhile is_space ?r))" by (rule hd_dropWhile)
  moreover from ne have "hd (dropWhile is_space ?r) \<in> set (dropWhile is_space ?r)" by simp
  ultimately show ?thesis by (auto simp: strip_def)
qed

lemma split_ws_nonempty: "\<exists>c \<in> set t. \<not> is_space c \<Longrightarrow> split_ws t \<noteq> []"
  by (induction t rule: split_ws.induct) auto

lemma split_ws_strip:
  assumes "strip l \<noteq> []"
  obtains p0 rest where "split_ws (strip l) = p0 # rest"
  using split_ws_nonempty [OF strip_nonempty [OF assms]] by (cases "split_ws (strip l)") auto

lemma process_line_blank: "strip l = [] \<Longrightarrow> process_line s l = Inr (s, None)"
  by (simp add: process_line_def)

lemma process_line_parts:
  assumes "split_ws (strip l) = p0 # rest"
  shows "process_line s l =
     (if upper p0 = ''PLACE'' then
        (if rest = [] then Inr (s, None)
         else case place_args (p0 # rest) of
                Inl e \<Rightarrow> (if e = ValueError then Inr (s, None) else Inl e)
              | Inr (a, b, f) \<Rightarrow> Inr (place s a b f, None))
      else if \<not> is_placed s then Inr (s, None)
      else if upper p0 = ''MOVE'' then
        (case move s of Inl e \<Rightarrow> Inl e | Inr s' \<Rightarrow> Inr (s', None))
      else if upper p0 = ''LEFT'' then
        (case rotate_left s of Inl e \<Rightarrow> Inl e | Inr s' \<Rightarrow> Inr (s', None))
      else if upper p0 = ''RIGHT'' then
        (case rotate_right s of Inl e \<Rightarrow> Inl e | Inr s' \<Rightarrow> Inr (s', None))
      else if upper p0 = ''REPORT'' then Inr (report s)
      else Inr (s, None))"
proof -
  from assms have "strip l \<noteq> []" by auto
  moreover have "length (p0 # rest) < 2 \<longleftrightarrow> rest = []" by (cases rest) auto
  ultimately show ?thesis
    using assms by (simp add: process_line_def list_get_def Let_def)
qed

lemma process_line_place:
  assumes "split_ws (strip l) = p0 # rest" and "upper p0 = ''PLACE''"
  shows "(\<forall>s. process_line s l = Inr (s, None)) \<or>
         (\<exists>arg others x_str y_str f a b. rest = arg # others \<and>
            split_sep CHR '','' arg = [x_str, y_str, f] \<and> py_int x_str = Inr a \<and>
            py_int y_str = Inr b \<and> (\<forall>s. process_line s l = Inr (place s a b f, None)))"
proof (cases rest)
  case Nil
  with assms show ?thesis by (simp add: process_line_parts)
next
  case (Cons arg others)
  show ?thesis
  proof (cases "place_args (p0 # arg # others)")
    case (Inl e)
    then have "e = ValueError" by (rule place_args_error)
    with Inl Cons assms show ?thesis by (simp add: process_line_parts)
  next
    case (Inr r)
    obtain a b f where r: "r = (a, b, f)" by (cases r)
    from Inr r obtain x_str y_str where "split_sep CHR '','' arg = [x_str, y_str, f]"
      "py_int x_str = Inr a" "py_int y_str = Inr b"
      by (auto simp: place_args_two split: list.splits sum.splits)
    with Inr r Cons assms show ?thesis by (simp add: process_line_parts)
  qed
qed

text \<open>
  C4. Take a line whose first token is PLACE in any letter case. If no second token follows,
  or the second token does not split at its commas into exactly three fields, or one of the
  first two fields is not an integer for \<^verbatim>\<open>int\<close>, or the third field in upper case is not
  one of the four names, or both coordinates are integers and the position is off the table,
  then \<^verbatim>\<open>process_line\<close> returns without an error, returns None, and leaves the state,
  whatever it was, exactly as it was.
\<close>

theorem malformed_place_ignored:
  assumes "split_ws (strip l) = p0 # rest" and "upper p0 = ''PLACE''"
    and "rest = [] \<or>
         length (split_sep CHR '','' (hd rest)) \<noteq> 3 \<or>
         (\<exists>x_str y_str f. split_sep CHR '','' (hd rest) = [x_str, y_str, f] \<and>
            (py_int x_str = Inl ValueError \<or> py_int y_str = Inl ValueError \<or>
             upper f \<notin> set DIRECTIONS \<or>
             (\<exists>a b. py_int x_str = Inr a \<and> py_int y_str = Inr b \<and> \<not> is_valid_position a b)))"
  shows "process_line s l = Inr (s, None)"
proof -
  from process_line_place [OF assms(1,2)]
  consider "process_line s l = Inr (s, None)"
    | arg others x_str y_str f a b where "rest = arg # others"
        "split_sep CHR '','' arg = [x_str, y_str, f]" "py_int x_str = Inr a"
        "py_int y_str = Inr b" "process_line s l = Inr (place s a b f, None)"
    by blast
  then show ?thesis
  proof cases
    case 1
    then show ?thesis .
  next
    case 2
    with assms(3) have "upper f \<notin> set DIRECTIONS \<or> \<not> is_valid_position a b" by auto
    then have "place s a b f = s" by (auto intro: place_rejected)
    with 2 show ?thesis by simp
  qed
qed

theorem malformed_place_ignored_witness:
  "process_line \<lparr>x = Some 1, y = Some 2, facing = Some ''EAST'', is_placed = True\<rparr> ''PLACE'' =
     Inr (\<lparr>x = Some 1, y = Some 2, facing = Some ''EAST'', is_placed = True\<rparr>, None) \<and>
   process_line \<lparr>x = Some 1, y = Some 2, facing = Some ''EAST'', is_placed = True\<rparr> ''PLACE 1,2'' =
     Inr (\<lparr>x = Some 1, y = Some 2, facing = Some ''EAST'', is_placed = True\<rparr>, None) \<and>
   process_line \<lparr>x = Some 1, y = Some 2, facing = Some ''EAST'', is_placed = True\<rparr> ''place 1,z,NORTH'' =
     Inr (\<lparr>x = Some 1, y = Some 2, facing = Some ''EAST'', is_placed = True\<rparr>, None) \<and>
   process_line \<lparr>x = Some 1, y = Some 2, facing = Some ''EAST'', is_placed = True\<rparr> ''PLACE 1,2,UP'' =
     Inr (\<lparr>x = Some 1, y = Some 2, facing = Some ''EAST'', is_placed = True\<rparr>, None) \<and>
   process_line \<lparr>x = Some 1, y = Some 2, facing = Some ''EAST'', is_placed = True\<rparr> ''PLACE 5,5,NORTH'' =
     Inr (\<lparr>x = Some 1, y = Some 2, facing = Some ''EAST'', is_placed = True\<rparr>, None)"
proof -
  let ?c = "\<lparr>x = Some 1, y = Some 2, facing = Some ''EAST'', is_placed = True\<rparr>"
  have P: "upper ''PLACE'' = ''PLACE''" "upper ''place'' = ''PLACE''" by code_simp+
  have t1: "split_ws (strip ''PLACE'') = [''PLACE'']" by code_simp
  have r1: "process_line ?c ''PLACE'' = Inr (?c, None)"
    by (rule malformed_place_ignored [OF t1 P(1)]) simp
  have t2: "split_ws (strip ''PLACE 1,2'') = [''PLACE'', ''1,2'']" by code_simp
  have f2: "split_sep CHR '','' ''1,2'' = [''1'', ''2'']" by code_simp
  have r2: "process_line ?c ''PLACE 1,2'' = Inr (?c, None)"
    by (rule malformed_place_ignored [OF t2 P(1)]) (simp add: f2)
  have t3: "split_ws (strip ''place 1,z,NORTH'') = [''place'', ''1,z,NORTH'']" by code_simp
  have f3: "split_sep CHR '','' ''1,z,NORTH'' = [''1'', ''z'', ''NORTH'']" by code_simp
  have i3: "py_int ''z'' = Inl ValueError" by code_simp
  have r3: "process_line ?c ''place 1,z,NORTH'' = Inr (?c, None)"
    by (rule malformed_place_ignored [OF t3 P(2)]) (simp add: f3 i3)
  have t4: "split_ws (strip ''PLACE 1,2,UP'') = [''PLACE'', ''1,2,UP'']" by code_simp
  have f4: "split_sep CHR '','' ''1,2,UP'' = [''1'', ''2'', ''UP'']" by code_simp
  have u4: "upper ''UP'' \<notin> set DIRECTIONS" by code_simp
  have r4: "process_line ?c ''PLACE 1,2,UP'' = Inr (?c, None)"
    by (rule malformed_place_ignored [OF t4 P(1)]) (simp add: f4 u4)
  have t5: "split_ws (strip ''PLACE 5,5,NORTH'') = [''PLACE'', ''5,5,NORTH'']" by code_simp
  have f5: "split_sep CHR '','' ''5,5,NORTH'' = [''5'', ''5'', ''NORTH'']" by code_simp
  have i5: "py_int ''5'' = Inr 5" by code_simp
  have v5: "\<not> is_valid_position 5 5" by code_simp
  have r5: "process_line ?c ''PLACE 5,5,NORTH'' = Inr (?c, None)"
    by (rule malformed_place_ignored [OF t5 P(1)]) (simp add: f5 i5 v5)
  from r1 r2 r3 r4 r5 show ?thesis by simp
qed

text \<open>
  C9. Only the first token of a line selects the command: in a placed state, a line whose
  first token is MOVE, LEFT, RIGHT or REPORT (in any letter case) does what \<^verbatim>\<open>move\<close>,
  \<^verbatim>\<open>rotate_left\<close>, \<^verbatim>\<open>rotate_right\<close> or \<^verbatim>\<open>report\<close> does, whatever tokens follow; and a
  PLACE line whose second token holds two integers and a name places the robot with them,
  whatever tokens follow the second.
\<close>

theorem first_token_dispatch:
  assumes "split_ws (strip l) = p0 # rest"
  shows "(upper p0 = ''MOVE'' \<and> is_placed s \<longrightarrow>
            process_line s l = (case move s of Inl e \<Rightarrow> Inl e | Inr s' \<Rightarrow> Inr (s', None))) \<and>
         (upper p0 = ''LEFT'' \<and> is_placed s \<longrightarrow>
            process_line s l = (case rotate_left s of Inl e \<Rightarrow> Inl e | Inr s' \<Rightarrow> Inr (s', None))) \<and>
         (upper p0 = ''RIGHT'' \<and> is_placed s \<longrightarrow>
            process_line s l = (case rotate_right s of Inl e \<Rightarrow> Inl e | Inr s' \<Rightarrow> Inr (s', None))) \<and>
         (upper p0 = ''REPORT'' \<and> is_placed s \<longrightarrow> process_line s l = Inr (report s)) \<and>
         (\<forall>arg others x_str y_str f a b.
            upper p0 = ''PLACE'' \<and> rest = arg # others \<and>
            split_sep CHR '','' arg = [x_str, y_str, f] \<and>
            py_int x_str = Inr a \<and> py_int y_str = Inr b \<longrightarrow>
            process_line s l = Inr (place s a b f, None))"
  by (auto simp: process_line_parts [OF assms] place_args_two)

theorem first_token_dispatch_witness:
  "process_line \<lparr>x = Some 0, y = Some 0, facing = Some ''NORTH'', is_placed = True\<rparr> ''MOVE now'' =
     Inr (\<lparr>x = Some 0, y = Some 1, facing = Some ''NORTH'', is_placed = True\<rparr>, None) \<and>
   process_line \<lparr>x = Some 0, y = Some 0, facing = Some ''NORTH'', is_placed = True\<rparr> ''report it'' =
     Inr (\<lparr>x = Some 0, y = Some 0, facing = Some ''NORTH'', is_placed = True\<rparr>, Some ''0,0,NORTH'') \<and>
   process_line create_initial_state ''PLACE 1,2,NORTH junk'' =
     Inr (\<lparr>x = Some 1, y = Some 2, facing = Some ''NORTH'', is_placed = True\<rparr>, None)"
proof -
  let ?c = "\<lparr>x = Some 0, y = Some 0, facing = Some ''NORTH'', is_placed = True\<rparr>"
  have t1: "split_ws (strip ''MOVE now'') = [''MOVE'', ''now'']" by code_simp
  have u1: "upper ''MOVE'' = ''MOVE''" by code_simp
  have m1: "move ?c = Inr \<lparr>x = Some 0, y = Some 1, facing = Some ''NORTH'', is_placed = True\<rparr>"
    by code_simp
  from first_token_dispatch [OF t1, of ?c] u1 m1
  have r1: "process_line ?c ''MOVE now'' =
      Inr (\<lparr>x = Some 0, y = Some 1, facing = Some ''NORTH'', is_placed = True\<rparr>, None)"
    by simp
  have t2: "split_ws (strip ''report it'') = [''report'', ''it'']" by code_simp
  have u2: "upper ''report'' = ''REPORT''" by code_simp
  have m2: "report ?c = (?c, Some ''0,0,NORTH'')" by code_simp
  from first_token_dispatch [OF t2, of ?c] u2 m2
  have r2: "process_line ?c ''report it'' = Inr (?c, Some ''0,0,NORTH'')"
    by simp
  have t3: "split_ws (strip ''PLACE 1,2,NORTH junk'') = [''PLACE'', ''1,2,NORTH'', ''junk'']"
    by code_simp
  have u3: "upper ''PLACE'' = ''PLACE''" by code_simp
  have f3: "split_sep CHR '','' ''1,2,NORTH'' = [''1'', ''2'', ''NORTH'']" by code_simp
  have i3: "py_int ''1'' = Inr 1" "py_int ''2'' = Inr 2" by code_simp+
  have p3: "place create_initial_state 1 2 ''NORTH'' =
      \<lparr>x = Some 1, y = Some 2, facing = Some ''NORTH'', is_placed = True\<rparr>"
    by code_simp
  from first_token_dispatch [OF t3, of create_initial_state] u3 f3 i3 p3
  have r3: "process_line create_initial_state ''PLACE 1,2,NORTH junk'' =
      Inr (\<lparr>x = Some 1, y = Some 2, facing = Some ''NORTH'', is_placed = True\<rparr>, None)"
    by simp
  from r1 r2 r3 show ?thesis by simp
qed

section \<open>Lines before the robot is placed\<close>

lemma is_placed_place:
  "is_placed (place s a b f) \<longleftrightarrow> is_placed s \<or> (is_valid_position a b \<and> upper f \<in> set DIRECTIONS)"
  by (simp add: place_def Let_def)

lemma place_literal:
  assumes "is_valid_position a b" and "upper f \<in> set DIRECTIONS"
  shows "place s a b f = \<lparr>x = Some a, y = Some b, facing = Some (upper f), is_placed = True\<rparr>"
  by (cases s) (simp add: place_valid [OF assms])

lemma process_line_not_place:
  assumes "split_ws (strip l) = p0 # rest" and "upper p0 \<noteq> ''PLACE''" and "\<not> is_placed s"
  shows "process_line s l = Inr (s, None)"
  using assms(2,3) by (simp add: process_line_parts [OF assms(1)])

lemma process_line_cases:
  obtains (blank) "\<forall>s. process_line s l = Inr (s, None)"
  | (place) p0 rest a b f where "split_ws (strip l) = p0 # rest" and "upper p0 = ''PLACE''"
      and "\<forall>s. process_line s l = Inr (place s a b f, None)"
  | (other) p0 rest where "split_ws (strip l) = p0 # rest" and "upper p0 \<noteq> ''PLACE''"
proof (cases "strip l = []")
  case True
  then show ?thesis using blank by (simp add: process_line_blank)
next
  case False
  then obtain p0 rest where t: "split_ws (strip l) = p0 # rest" by (rule split_ws_strip)
  show ?thesis
  proof (cases "upper p0 = ''PLACE''")
    case True
    from process_line_place [OF t True] show ?thesis using blank place [OF t True] by blast
  next
    case False
    with t show ?thesis by (rule other)
  qed
qed

lemma placing_line_place:
  assumes "\<forall>s. process_line s l = Inr (place s a b f, None)"
  shows "placing_line l \<longleftrightarrow> is_valid_position a b \<and> upper f \<in> set DIRECTIONS"
  using assms by (simp add: placing_line_def is_placed_place create_initial_state_def)

lemma process_line_not_placing:
  assumes "\<not> placing_line l" and "\<not> is_placed s"
  shows "process_line s l = Inr (s, None)"
proof (cases l rule: process_line_cases)
  case blank
  then show ?thesis by simp
next
  case (place p0 rest a b f)
  from assms(1) placing_line_place [OF place(3)]
  have "\<not> is_valid_position a b \<or> upper f \<notin> set DIRECTIONS" by blast
  then have "place s a b f = s" by (rule place_rejected)
  with place(3) show ?thesis by simp
next
  case (other p0 rest)
  then show ?thesis using assms(2) by (rule process_line_not_place)
qed

lemma process_line_placing:
  assumes "placing_line l"
  shows "\<exists>p0 rest a b f. split_ws (strip l) = p0 # rest \<and> upper p0 = ''PLACE'' \<and>
           is_valid_position a b \<and> f \<in> set DIRECTIONS \<and>
           (\<forall>s. process_line s l =
              Inr (\<lparr>x = Some a, y = Some b, facing = Some f, is_placed = True\<rparr>, None))"
proof (cases l rule: process_line_cases)
  case blank
  with assms show ?thesis by (simp add: placing_line_def create_initial_state_def)
next
  case (place p0 rest a b f)
  from assms placing_line_place [OF place(3)]
  have v: "is_valid_position a b" "upper f \<in> set DIRECTIONS" by blast+
  with place show ?thesis by (auto simp: place_literal)
next
  case (other p0 rest)
  then have "process_line create_initial_state l = Inr (create_initial_state, None)"
    by (rule process_line_not_place) (simp add: create_initial_state_def)
  with assms show ?thesis by (simp add: placing_line_def create_initial_state_def)
qed

lemma run_loop_not_placing:
  assumes "\<forall>l \<in> set ls. \<not> placing_line (rstrip_newline l)" and "\<not> is_placed s"
  shows "run_loop s ls = Inr (s, replicate (length ls) None)"
  using assms by (induction ls) (simp_all add: process_line_not_placing)

text \<open>
  C5. From an unplaced state, a stream none of whose lines places the robot is processed
  without error, \<^verbatim>\<open>process_line\<close> returns None on every line and the state at the end is
  the state at the start; \<^verbatim>\<open>run_stream\<close> on such a stream prints nothing. In an unplaced
  state a line whose first token is not PLACE leaves the state unchanged and returns None.
  A line that places the robot is a PLACE line, and it places the robot in every state,
  placed or not: the state after it holds the position and facing of the line.
\<close>

theorem no_report_before_place:
  "(\<not> is_placed s \<and> (\<forall>l \<in> set ls. \<not> placing_line (rstrip_newline l)) \<longrightarrow>
      run_loop s ls = Inr (s, replicate (length ls) None)) \<and>
   ((\<forall>l \<in> set ls. \<not> placing_line (rstrip_newline l)) \<longrightarrow> run_stream ls = Inr []) \<and>
   (\<not> is_placed s \<and> split_ws (strip l) = p0 # rest \<and> upper p0 \<noteq> ''PLACE'' \<longrightarrow>
      process_line s l = Inr (s, None)) \<and>
   (placing_line l \<longrightarrow>
      (\<exists>p0 rest a b f. split_ws (strip l) = p0 # rest \<and> upper p0 = ''PLACE'' \<and>
         is_valid_position a b \<and> f \<in> set DIRECTIONS \<and>
         (\<forall>t. process_line t l =
            Inr (\<lparr>x = Some a, y = Some b, facing = Some f, is_placed = True\<rparr>, None))))"
proof (intro conjI impI)
  assume "\<not> is_placed s \<and> (\<forall>l \<in> set ls. \<not> placing_line (rstrip_newline l))"
  then show "run_loop s ls = Inr (s, replicate (length ls) None)"
    by (simp add: run_loop_not_placing)
next
  assume "\<forall>l \<in> set ls. \<not> placing_line (rstrip_newline l)"
  then have "run_loop create_initial_state ls =
      Inr (create_initial_state, replicate (length ls) None)"
    by (rule run_loop_not_placing) (simp add: create_initial_state_def)
  then show "run_stream ls = Inr []" by (simp add: run_stream_def)
next
  assume "\<not> is_placed s \<and> split_ws (strip l) = p0 # rest \<and> upper p0 \<noteq> ''PLACE''"
  then show "process_line s l = Inr (s, None)" by (simp add: process_line_not_place)
next
  assume "placing_line l"
  then show "\<exists>p0 rest a b f. split_ws (strip l) = p0 # rest \<and> upper p0 = ''PLACE'' \<and>
         is_valid_position a b \<and> f \<in> set DIRECTIONS \<and>
         (\<forall>t. process_line t l =
            Inr (\<lparr>x = Some a, y = Some b, facing = Some f, is_placed = True\<rparr>, None))"
    by (rule process_line_placing)
qed

theorem no_report_before_place_witness:
  "\<not> is_placed create_initial_state \<and>
   list_all (\<lambda>l. \<not> placing_line (rstrip_newline l))
     [''MOVE'', ''LEFT'', ''REPORT'', ''PLACE 5,5,NORTH'', ''PLACE 1,2'', ''REPORT''] \<and>
   run_loop create_initial_state
     [''MOVE'', ''LEFT'', ''REPORT'', ''PLACE 5,5,NORTH'', ''PLACE 1,2'', ''REPORT''] =
     Inr (create_initial_state, [None, None, None, None, None, None]) \<and>
   run_stream [''MOVE'', ''LEFT'', ''REPORT'', ''PLACE 5,5,NORTH'', ''PLACE 1,2'', ''REPORT''] = Inr [] \<and>
   process_line create_initial_state ''REPORT'' = Inr (create_initial_state, None) \<and>
   placing_line ''PLACE 4,4,WEST'' \<and>
   (\<exists>a b f. \<forall>t. process_line t ''PLACE 4,4,WEST'' =
      Inr (\<lparr>x = Some a, y = Some b, facing = Some f, is_placed = True\<rparr>, None))"
proof -
  let ?ls = "[''MOVE'', ''LEFT'', ''REPORT'', ''PLACE 5,5,NORTH'', ''PLACE 1,2'', ''REPORT'']"
  have u: "\<not> is_placed create_initial_state" by (simp add: create_initial_state_def)
  have n: "\<forall>l \<in> set ?ls. \<not> placing_line (rstrip_newline l)" by code_simp
  have t: "split_ws (strip ''REPORT'') = [''REPORT'']" by code_simp
  have c: "upper ''REPORT'' \<noteq> ''PLACE''" by code_simp
  have p: "placing_line ''PLACE 4,4,WEST''" by code_simp
  note inst1 = no_report_before_place [where s = create_initial_state and ls = ?ls
      and l = "''REPORT''" and ?p0.0 = "''REPORT''" and rest = "[]"]
  note inst2 = no_report_before_place [where l = "''PLACE 4,4,WEST''"]
  from inst1 u n have r1: "run_loop create_initial_state ?ls =
      Inr (create_initial_state, replicate (length ?ls) None)" by blast
  from inst1 n have r2: "run_stream ?ls = Inr []" by blast
  from inst1 u t c have r3: "process_line create_initial_state ''REPORT'' =
      Inr (create_initial_state, None)" by blast
  from inst2 p have r4: "\<exists>a b f. \<forall>t. process_line t ''PLACE 4,4,WEST'' =
      Inr (\<lparr>x = Some a, y = Some b, facing = Some f, is_placed = True\<rparr>, None)" by blast
  from r1 have r1a: "run_loop create_initial_state ?ls =
      Inr (create_initial_state, [None, None, None, None, None, None])"
    by (simp add: numeral_eq_Suc)
  from n have n': "list_all (\<lambda>l. \<not> placing_line (rstrip_newline l)) ?ls"
    by (simp only: list_all_iff)
  from u n' r1a r2 r3 p r4 show ?thesis by blast
qed

section \<open>The invariant along every sequence of operations\<close>

lemma state_inv_initial: "state_inv create_initial_state"
  by (simp add: state_inv_def create_initial_state_def)

lemma place_inv: "state_inv s \<Longrightarrow> state_inv (place s a b f)"
  by (auto simp: place_def Let_def state_inv_def)

lemma place_placed: "is_placed s \<Longrightarrow> is_placed (place s a b f)"
  by (simp add: is_placed_place)

lemma move_placed: "move s = Inr s' \<Longrightarrow> is_placed s' = is_placed s"
  by (auto simp: move_def Let_def split: if_splits option.splits prod.splits)

lemma move_changes:
  "move s = Inr s' \<Longrightarrow> s' = s \<or> (\<exists>a b. x s' = Some a \<and> y s' = Some b \<and> is_valid_position a b)"
  by (auto simp: move_def Let_def split: if_splits option.splits prod.splits)

lemma rotate_inv:
  assumes "state_inv s"
  shows "\<exists>s'. rotate_left s = Inr s' \<and> state_inv s' \<and> is_placed s' = is_placed s"
    and "\<exists>s'. rotate_right s = Inr s' \<and> state_inv s' \<and> is_placed s' = is_placed s"
proof -
  show "\<exists>s'. rotate_left s = Inr s' \<and> state_inv s' \<and> is_placed s' = is_placed s"
  proof (cases "is_placed s")
    case False
    with assms show ?thesis by (simp add: rotate_left_def)
  next
    case True
    with assms have "facing s \<in> set (map Some DIRECTIONS)" by (simp add: state_inv_def)
    then show ?thesis
      by (cases rule: facing_cases)
         (use True assms in \<open>auto simp: rotate_left_facing state_inv_def DIRECTIONS_def split: option.splits\<close>)
  qed
  show "\<exists>s'. rotate_right s = Inr s' \<and> state_inv s' \<and> is_placed s' = is_placed s"
  proof (cases "is_placed s")
    case False
    with assms show ?thesis by (simp add: rotate_right_def)
  next
    case True
    with assms have "facing s \<in> set (map Some DIRECTIONS)" by (simp add: state_inv_def)
    then show ?thesis
      by (cases rule: facing_cases)
         (use True assms in \<open>auto simp: rotate_right_facing state_inv_def DIRECTIONS_def split: option.splits\<close>)
  qed
qed

lemma process_line_inv:
  assumes "state_inv s"
  shows "\<exists>s' r. process_line s l = Inr (s', r) \<and> state_inv s' \<and> (is_placed s \<longrightarrow> is_placed s')"
proof (cases l rule: process_line_cases)
  case blank
  with assms show ?thesis by simp
next
  case (place p0 rest a b f)
  with assms show ?thesis by (simp add: place_inv place_placed)
next
  case (other p0 rest)
  from move_inv [OF assms] rotate_inv [OF assms]
  obtain m rl rr where "move s = Inr m" "state_inv m" "is_placed m = is_placed s"
    "rotate_left s = Inr rl" "state_inv rl" "is_placed rl = is_placed s"
    "rotate_right s = Inr rr" "state_inv rr" "is_placed rr = is_placed s"
    by blast
  with assms other(2) show ?thesis
    by (simp add: process_line_parts [OF other(1)] report_def)
qed

lemma process_line_placed:
  assumes "is_placed s" and "process_line s l = Inr (s', r)"
  shows "is_placed s'"
proof (cases l rule: process_line_cases)
  case blank
  with assms show ?thesis by simp
next
  case (place p0 rest a b f)
  with assms show ?thesis by (auto simp: place_placed)
next
  case (other p0 rest)
  with assms show ?thesis
    by (auto simp: process_line_parts [OF other(1)] report_def
        split: if_splits sum.splits dest: move_placed rotate_left_frame rotate_right_frame)
qed

lemma apply_op_inv:
  assumes "state_inv s"
  shows "\<exists>s'. apply_op s c = Inr s' \<and> state_inv s' \<and> (is_placed s \<longrightarrow> is_placed s')"
proof (cases c)
  case (Place a b f)
  with assms show ?thesis by (simp add: place_inv place_placed)
next
  case Move
  with move_inv [OF assms] show ?thesis by auto
next
  case RotateLeft
  with rotate_inv(1) [OF assms] show ?thesis by auto
next
  case RotateRight
  with rotate_inv(2) [OF assms] show ?thesis by auto
next
  case Report
  with assms show ?thesis by (simp add: report_def)
next
  case (ProcessLine l)
  with process_line_inv [OF assms, of l] show ?thesis by auto
qed

lemma apply_op_placed:
  assumes "is_placed s" and "apply_op s c = Inr s'"
  shows "is_placed s'"
  using assms
  by (cases c)
     (auto simp: place_placed report_def split: sum.splits if_splits
        dest: move_placed rotate_left_frame rotate_right_frame process_line_placed)

lemma apply_ops_inv:
  "state_inv s \<Longrightarrow>
     \<exists>s'. apply_ops s cs = Inr s' \<and> state_inv s' \<and> (is_placed s \<longrightarrow> is_placed s')"
proof (induction cs arbitrary: s)
  case Nil
  then show ?case by simp
next
  case (Cons c cs)
  from apply_op_inv [OF Cons.prems, of c]
  obtain s1 where s1: "apply_op s c = Inr s1" "state_inv s1" "is_placed s \<longrightarrow> is_placed s1"
    by blast
  from Cons.IH [OF s1(2)] s1 show ?case by auto
qed

lemma apply_ops_placed:
  "is_placed s \<Longrightarrow> apply_ops s cs = Inr s' \<Longrightarrow> is_placed s'"
proof (induction cs arbitrary: s)
  case Nil
  then show ?case by simp
next
  case (Cons c cs)
  then show ?case by (auto split: sum.splits dest: apply_op_placed)
qed

lemma place_all_or_nothing:
  "place t a b f = t \<or>
   (is_valid_position a b \<and>
    place t a b f = \<lparr>x = Some a, y = Some b, facing = Some (upper f), is_placed = True\<rparr>)"
  by (cases "is_valid_position a b \<and> upper f \<in> set DIRECTIONS")
     (auto simp: place_literal place_rejected)

lemma move_all_or_nothing:
  "move t = Inr t' \<Longrightarrow>
     t' = t \<or> (\<exists>a' b'. is_valid_position a' b' \<and> t' = t\<lparr>x := Some a', y := Some b'\<rparr>)"
  by (auto simp: move_def Let_def split: if_splits option.splits prod.splits)

text \<open>
  C1. Every sequence of operations (\<^verbatim>\<open>place\<close>, \<^verbatim>\<open>move\<close>, \<^verbatim>\<open>rotate_left\<close>,
  \<^verbatim>\<open>rotate_right\<close>, \<^verbatim>\<open>report\<close>, lines given to \<^verbatim>\<open>process_line\<close>) run from the initial
  state returns without error, and if the state it ends in is placed, then \<^verbatim>\<open>x\<close> and
  \<^verbatim>\<open>y\<close> hold integers with \<open>0 \<le> x < 5\<close> and \<open>0 \<le> y < 5\<close>. The two transitions that write
  a position do it all or nothing: \<^verbatim>\<open>place\<close> either returns the state unchanged or writes
  all four fields, with a position on the table, and it returns the state unchanged when the
  position is off the table; \<^verbatim>\<open>move\<close>, when it returns, either returns the state unchanged
  or has written both coordinates, of a position on the table.
\<close>

theorem bounds_invariant:
  "(\<exists>s. apply_ops create_initial_state cs = Inr s \<and>
      (is_placed s \<longrightarrow>
         (\<exists>a b. x s = Some a \<and> y s = Some b \<and> 0 \<le> a \<and> a < 5 \<and> 0 \<le> b \<and> b < 5))) \<and>
   (place t a b f = t \<or>
      (is_valid_position a b \<and>
       place t a b f = \<lparr>x = Some a, y = Some b, facing = Some (upper f), is_placed = True\<rparr>)) \<and>
   (\<not> (0 \<le> a \<and> a < 5 \<and> 0 \<le> b \<and> b < 5) \<longrightarrow> place t a b f = t) \<and>
   (\<forall>t'. move t = Inr t' \<longrightarrow>
      t' = t \<or> (\<exists>a' b'. 0 \<le> a' \<and> a' < 5 \<and> 0 \<le> b' \<and> b' < 5 \<and> t' = t\<lparr>x := Some a', y := Some b'\<rparr>))"
proof -
  have v: "is_valid_position u w \<longleftrightarrow> 0 \<le> u \<and> u < 5 \<and> 0 \<le> w \<and> w < 5" for u w
    by (simp add: is_valid_position_def TABLE_WIDTH_def TABLE_HEIGHT_def)
  from apply_ops_inv [OF state_inv_initial, of cs]
  obtain s where s: "apply_ops create_initial_state cs = Inr s" "state_inv s" by blast
  have "is_placed s \<longrightarrow>
      (\<exists>a b. x s = Some a \<and> y s = Some b \<and> 0 \<le> a \<and> a < 5 \<and> 0 \<le> b \<and> b < 5)"
    using s(2) by (auto elim!: state_invD simp: v)
  with s(1) have 1: "\<exists>s. apply_ops create_initial_state cs = Inr s \<and>
      (is_placed s \<longrightarrow>
         (\<exists>a b. x s = Some a \<and> y s = Some b \<and> 0 \<le> a \<and> a < 5 \<and> 0 \<le> b \<and> b < 5))"
    by blast
  have 2: "\<not> (0 \<le> a \<and> a < 5 \<and> 0 \<le> b \<and> b < 5) \<longrightarrow> place t a b f = t"
    using place_rejected [of a b f t] by (simp add: v)
  have 3: "\<forall>t'. move t = Inr t' \<longrightarrow>
      t' = t \<or> (\<exists>a' b'. 0 \<le> a' \<and> a' < 5 \<and> 0 \<le> b' \<and> b' < 5 \<and> t' = t\<lparr>x := Some a', y := Some b'\<rparr>)"
    using move_all_or_nothing [of t] by (simp add: v)
  from 1 2 3 place_all_or_nothing [of t a b f] show ?thesis by blast
qed

theorem bounds_invariant_witness:
  "apply_ops create_initial_state
     [ProcessLine ''PLACE 0,4,NORTH'', Move, RotateRight, Move, Place 5 0 ''EAST'', Report] =
     Inr \<lparr>x = Some 1, y = Some 4, facing = Some ''EAST'', is_placed = True\<rparr> \<and>
   (\<exists>a b. x \<lparr>x = Some 1, y = Some 4, facing = Some ''EAST'', is_placed = True\<rparr> = Some a \<and>
      y \<lparr>x = Some 1, y = Some 4, facing = Some ''EAST'', is_placed = True\<rparr> = Some b \<and>
      0 \<le> a \<and> a < 5 \<and> 0 \<le> b \<and> b < 5) \<and>
   place \<lparr>x = Some 1, y = Some 4, facing = Some ''EAST'', is_placed = True\<rparr> 0 5 ''NORTH'' =
     \<lparr>x = Some 1, y = Some 4, facing = Some ''EAST'', is_placed = True\<rparr>"
proof -
  let ?cs = "[ProcessLine ''PLACE 0,4,NORTH'', Move, RotateRight, Move, Place 5 0 ''EAST'', Report]"
  let ?c = "\<lparr>x = Some 1, y = Some 4, facing = Some ''EAST'', is_placed = True\<rparr>"
  have e: "apply_ops create_initial_state ?cs = Inr ?c" by code_simp
  from bounds_invariant [of ?cs ?c 0 5 "''NORTH''"] e show ?thesis by simp
qed

text \<open>
  C6. From a placed state, no sequence of operations that returns ends in an unplaced state;
  and from a placed state that satisfies the data model's invariant, every sequence of
  operations returns, in a placed state.
\<close>

theorem placed_never_reset:
  assumes "is_placed s"
  shows "(\<forall>s'. apply_ops s cs = Inr s' \<longrightarrow> is_placed s') \<and>
         (state_inv s \<longrightarrow> (\<exists>s'. apply_ops s cs = Inr s' \<and> is_placed s'))"
  using assms apply_ops_placed [of s cs] apply_ops_inv [of s cs] by blast

theorem placed_never_reset_witness:
  "is_placed \<lparr>x = Some 0, y = Some 0, facing = Some ''SOUTH'', is_placed = True\<rparr> \<and>
   state_inv \<lparr>x = Some 0, y = Some 0, facing = Some ''SOUTH'', is_placed = True\<rparr> \<and>
   apply_ops \<lparr>x = Some 0, y = Some 0, facing = Some ''SOUTH'', is_placed = True\<rparr>
     [Move, Place 9 9 ''NORTH'', ProcessLine ''PLACE 7,7,EAST'', RotateLeft, Report,
      ProcessLine ''bogus'', ProcessLine ''MOVE''] =
     Inr \<lparr>x = Some 1, y = Some 0, facing = Some ''EAST'', is_placed = True\<rparr> \<and>
   is_placed \<lparr>x = Some 1, y = Some 0, facing = Some ''EAST'', is_placed = True\<rparr>"
proof -
  let ?c = "\<lparr>x = Some 0, y = Some 0, facing = Some ''SOUTH'', is_placed = True\<rparr>"
  let ?cs = "[Move, Place 9 9 ''NORTH'', ProcessLine ''PLACE 7,7,EAST'', RotateLeft, Report,
      ProcessLine ''bogus'', ProcessLine ''MOVE'']"
  have p: "is_placed ?c" by simp
  have i: "state_inv ?c" by code_simp
  have e: "apply_ops ?c ?cs = Inr \<lparr>x = Some 1, y = Some 0, facing = Some ''EAST'', is_placed = True\<rparr>"
    by code_simp
  from placed_never_reset [OF p, of ?cs] p i e show ?thesis by simp
qed

end
